theory Spec2Isabelle
  imports Main "HOL-Library.Word"
begin

section \<open>Data structures\<close>

text \<open>
  The Win32 integer types of \<^verbatim>\<open>InputEvent\<close>: \<^verbatim>\<open>DWORD\<close> and \<^verbatim>\<open>UINT\<close> are unsigned 32-bit
  integers, \<^verbatim>\<open>LONG\<close> (the fields of \<^verbatim>\<open>POINT\<close>) is a signed 32-bit integer. All three are
  32-bit words; a \<^verbatim>\<open>LONG\<close> is read with \<open>sint\<close>, the other two with \<open>unat\<close>.
\<close>

type_synonym DWORD = "32 word"
type_synonym UINT = "32 word"
type_synonym LONG = "32 word"

record POINT =
  pt_x :: LONG
  pt_y :: LONG

record InputEvent =
  eventType :: string
  timestamp :: DWORD
  mousePos :: POINT
  keyCode :: UINT

text \<open>
  The position of the background flush thread inside \<^verbatim>\<open>CSVLogger::flushThreadFunc\<close>:
  at the loop head (line 148), inside \<^verbatim>\<open>sleep_for\<close> with a number of whole seconds still
  to sleep (line 150), at the second test of the flag (line 151), about to call
  \<^verbatim>\<open>flushToDisk\<close> (line 154), or returned from the function.
\<close>

datatype thread_pc = AtWhile | Sleeping nat | AtBreakCheck | AtFlush | Returned

text \<open>
  The fields of \<^verbatim>\<open>CSVLogger\<close>. The queue is a list with its front at the head. The
  mutex \<^verbatim>\<open>m_queueMutex\<close> has no field of its own: the two critical sections it guards
  (the push of \<^verbatim>\<open>logEvent\<close> and the drain loop of \<^verbatim>\<open>flushToDisk\<close>) are atomic steps of
  the model. \<^verbatim>\<open>m_flushThread\<close> is \<open>None\<close> when the \<^verbatim>\<open>std::thread\<close> object is not joinable
  and \<open>Some pc\<close> when it holds a thread that is at \<open>pc\<close>.
\<close>

record CSVLogger =
  m_filename :: string
  m_flushIntervalSec :: int
  m_running :: bool
  m_eventQueue :: "InputEvent list"
  m_flushThread :: "thread_pc option"

section \<open>The file system and the output streams\<close>

text \<open>
  What the logger sees of the outside world: the contents of the files, which files can
  be opened for writing at the moment, to which files a write goes through at the moment
  (it does not when the disk is full or a quota is reached), the log of every attempt to
  open a file, and the text written to \<^verbatim>\<open>std::cerr\<close>.
\<close>

datatype openmode = trunc | app

record world =
  files :: "string \<rightharpoonup> string"
  can_open :: "string \<Rightarrow> bool"
  can_write :: "string \<Rightarrow> bool"
  opens :: "(string \<times> openmode) list"
  cerr :: string

definition file_text :: "world \<Rightarrow> string \<Rightarrow> string" where
  "file_text W name = (case files W name of None \<Rightarrow> [] | Some c \<Rightarrow> c)"

record ofstream =
  ofs_name :: string
  is_open :: bool

text \<open>
  \<^verbatim>\<open>std::ofstream ofs(name, mode)\<close>. Opening with \<^verbatim>\<open>std::ios::trunc\<close> creates the file or
  empties it, opening with \<^verbatim>\<open>std::ios::app\<close> creates it when it is missing and keeps its
  contents otherwise. When the file cannot be opened the stream is left closed and the
  file system is as before.
\<close>

definition ofstream_open :: "string \<Rightarrow> openmode \<Rightarrow> world \<Rightarrow> ofstream \<times> world" where
  "ofstream_open name mode W =
     (let W1 = W\<lparr>opens := opens W @ [(name, mode)]\<rparr>
      in if can_open W name
         then (\<lparr>ofs_name = name, is_open = True\<rparr>,
               W1\<lparr>files := (files W)(name \<mapsto>
                 (case mode of trunc \<Rightarrow> [] | app \<Rightarrow> file_text W name))\<rparr>)
         else (\<lparr>ofs_name = name, is_open = False\<rparr>, W1))"

text \<open>
  \<^verbatim>\<open>ofs << s\<close> for a text \<open>s\<close>: the text goes to the end of the file. On a stream that is
  not open the output is discarded. On an open stream whose file takes no write the
  output is lost as well: the stream goes bad and discards every later insertion, and
  the file stays as it is. The source tests no stream after an insertion or a close, so
  neither loss is seen by the program. The stream's buffer is not modelled, the text
  reaches the file at once (the source closes every stream before it returns).
\<close>

definition ofs_write :: "ofstream \<Rightarrow> string \<Rightarrow> world \<Rightarrow> world" where
  "ofs_write ofs s W =
     (if is_open ofs \<and> can_write W (ofs_name ofs)
      then W\<lparr>files := (files W)(ofs_name ofs \<mapsto> file_text W (ofs_name ofs) @ s)\<rparr>
      else W)"

subsection \<open>Formatted output of integers\<close>

definition digit_char :: "nat \<Rightarrow> char" where
  "digit_char d = ''0123456789'' ! d"

fun dec_nat :: "nat \<Rightarrow> string" where
  "dec_nat n = (if n < 10 then [digit_char n] else dec_nat (n div 10) @ [digit_char (n mod 10)])"

declare dec_nat.simps [simp del]

definition dec_int :: "int \<Rightarrow> string" where
  "dec_int i = (if i < 0 then CHR ''-'' # dec_nat (nat (- i)) else dec_nat (nat i))"

text \<open>\<^verbatim>\<open>operator<<\<close> on an unsigned (\<^verbatim>\<open>DWORD\<close>, \<^verbatim>\<open>UINT\<close>) and on a signed (\<^verbatim>\<open>LONG\<close>) value.\<close>

definition put_unsigned :: "32 word \<Rightarrow> string" where
  "put_unsigned v = dec_nat (unat v)"

definition put_signed :: "32 word \<Rightarrow> string" where
  "put_signed v = dec_int (sint v)"

section \<open>CSVLogger\<close>

text \<open>
  The constructor. \<open>ts\<close> is what \<^verbatim>\<open>getTimestampString()\<close> returns at the time of the call
  (it reads the clock).
\<close>

definition CSVLogger_ctor :: "string \<Rightarrow> string \<Rightarrow> int \<Rightarrow> CSVLogger" where
  "CSVLogger_ctor ts filename flushIntervalSeconds =
     \<lparr>m_filename = (if filename = [] then ''input_log_'' @ ts @ ''.csv'' else filename),
      m_flushIntervalSec = flushIntervalSeconds,
      m_running = False,
      m_eventQueue = [],
      m_flushThread = None\<rparr>"

text \<open>\<^verbatim>\<open>CSVLogger::logEvent\<close>: push at the tail of the queue.\<close>

definition logEvent :: "CSVLogger \<Rightarrow> InputEvent \<Rightarrow> CSVLogger" where
  "logEvent L evt = L\<lparr>m_eventQueue := m_eventQueue L @ [evt]\<rparr>"

text \<open>
  The loop of \<^verbatim>\<open>flushToDisk\<close> that moves the queue into \<^verbatim>\<open>localBuffer\<close> (lines 166 to 169):
  it returns the queue and the buffer at the end of the loop.
\<close>

fun drain :: "InputEvent list \<Rightarrow> InputEvent list \<Rightarrow> InputEvent list \<times> InputEvent list" where
  "drain [] localBuffer = ([], localBuffer)"
| "drain (front # rest) localBuffer = drain rest (localBuffer @ [front])"

text \<open>The loop of \<^verbatim>\<open>flushToDisk\<close> that writes the events (lines 185 to 191).\<close>

fun write_events :: "ofstream \<Rightarrow> InputEvent list \<Rightarrow> world \<Rightarrow> world" where
  "write_events ofs [] W = W"
| "write_events ofs (evt # rest) W =
     (let W1 = ofs_write ofs (put_unsigned (timestamp evt)) W;
          W2 = ofs_write ofs '','' W1;
          W3 = ofs_write ofs (eventType evt) W2;
          W4 = ofs_write ofs '','' W3;
          W5 = ofs_write ofs (put_signed (pt_x (mousePos evt))) W4;
          W6 = ofs_write ofs '','' W5;
          W7 = ofs_write ofs (put_signed (pt_y (mousePos evt))) W6;
          W8 = ofs_write ofs '','' W7;
          W9 = ofs_write ofs (put_unsigned (keyCode evt)) W8;
          W10 = ofs_write ofs ''\<newline>'' W9
      in write_events ofs rest W10)"

text \<open>\<^verbatim>\<open>CSVLogger::flushToDisk\<close>.\<close>

definition flushToDisk :: "CSVLogger \<Rightarrow> world \<Rightarrow> CSVLogger \<times> world" where
  "flushToDisk L W =
     (let (queue, localBuffer) = drain (m_eventQueue L) [];
          L1 = L\<lparr>m_eventQueue := queue\<rparr>
      in if localBuffer = [] then (L1, W)
         else
           (let (ofs, W1) = ofstream_open (m_filename L1) app W
            in if \<not> is_open ofs
               then (L1, W1\<lparr>cerr := cerr W1 @ ''Failed to open CSV file for appending: ''
                                      @ m_filename L1 @ ''\<newline>''\<rparr>)
               else (L1, write_events ofs localBuffer W1)))"

text \<open>
  One step of the thread that runs \<^verbatim>\<open>CSVLogger::flushThreadFunc\<close>. A step of a sleeping
  thread is one second of \<^verbatim>\<open>sleep_for\<close> going by; a flush interval that is not positive
  sleeps for no time.
\<close>

fun flushThreadFunc :: "thread_pc \<Rightarrow> CSVLogger \<Rightarrow> world \<Rightarrow> thread_pc \<times> CSVLogger \<times> world" where
  "flushThreadFunc AtWhile L W =
     (if m_running L then (Sleeping (nat (m_flushIntervalSec L)), L, W) else (Returned, L, W))"
| "flushThreadFunc (Sleeping (Suc k)) L W = (Sleeping k, L, W)"
| "flushThreadFunc (Sleeping 0) L W = (AtBreakCheck, L, W)"
| "flushThreadFunc AtBreakCheck L W =
     (if \<not> m_running L then (Returned, L, W) else (AtFlush, L, W))"
| "flushThreadFunc AtFlush L W = (let (L1, W1) = flushToDisk L W in (AtWhile, L1, W1))"
| "flushThreadFunc Returned L W = (Returned, L, W)"

text \<open>
  \<^verbatim>\<open>m_flushThread.join()\<close>: the caller waits until the thread has returned from
  \<^verbatim>\<open>flushThreadFunc\<close>. The result is \<open>None\<close> when the thread never returns.
\<close>

partial_function (option) join :: "thread_pc \<Rightarrow> CSVLogger \<Rightarrow> world \<Rightarrow> (CSVLogger \<times> world) option" where
  "join pc L W =
     (if pc = Returned then Some (L, W)
      else (case flushThreadFunc pc L W of (pc1, L1, W1) \<Rightarrow> join pc1 L1 W1))"

text \<open>
  \<^verbatim>\<open>CSVLogger::start\<close>. The stream of lines 112 to 116 is never tested: the header is
  written to it whether or not it is open, and it is closed at the end of the block. The
  assignment of line 119 to a \<^verbatim>\<open>std::thread\<close> that is still joinable calls
  \<^verbatim>\<open>std::terminate\<close>; otherwise the new thread begins at the head of its loop.
\<close>

datatype abort = Terminate

definition header_line :: string where
  "header_line = ''timestamp_ms,event_type,x,y,key_code\<newline>''"

definition start :: "CSVLogger \<Rightarrow> world \<Rightarrow> abort + CSVLogger \<times> world" where
  "start L W =
     (if m_running L then Inr (L, W)
      else
        (let L1 = L\<lparr>m_running := True\<rparr>;
             (ofs, W1) = ofstream_open (m_filename L1) trunc W;
             W2 = ofs_write ofs header_line W1
         in case m_flushThread L1 of
              Some pc \<Rightarrow> Inl Terminate
            | None \<Rightarrow> Inr (L1\<lparr>m_flushThread := Some AtWhile\<rparr>, W2)))"

text \<open>\<^verbatim>\<open>CSVLogger::stop\<close>. After the join the \<^verbatim>\<open>std::thread\<close> object is no longer joinable.\<close>

definition stop :: "CSVLogger \<Rightarrow> world \<Rightarrow> (CSVLogger \<times> world) option" where
  "stop L W =
     (if \<not> m_running L then Some (L, W)
      else
        (let L1 = L\<lparr>m_running := False\<rparr>
         in case m_flushThread L1 of
              None \<Rightarrow> Some (flushToDisk L1 W)
            | Some pc \<Rightarrow>
                (case join pc L1 W of
                   None \<Rightarrow> None
                 | Some (L2, W2) \<Rightarrow> Some (flushToDisk (L2\<lparr>m_flushThread := None\<rparr>) W2))))"

text \<open>The body of \<^verbatim>\<open>CSVLogger::~CSVLogger\<close>.\<close>

definition CSVLogger_dtor :: "CSVLogger \<Rightarrow> world \<Rightarrow> (CSVLogger \<times> world) option" where
  "CSVLogger_dtor L W = (if m_running L then stop L W else Some (L, W))"

section \<open>The producers' events\<close>

text \<open>
  The events built by \<^verbatim>\<open>LowLevelMouseProc\<close> (lines 274 to 279), by
  \<^verbatim>\<open>LowLevelKeyboardProc\<close> (lines 320 to 325) and by \<^verbatim>\<open>cursorPollingThread\<close> (lines 341
  to 346), from the tag, the tick count, the cursor position and the key code.
\<close>

definition mouse_event :: "string \<Rightarrow> DWORD \<Rightarrow> POINT \<Rightarrow> InputEvent" where
  "mouse_event tag time pt = \<lparr>eventType = tag, timestamp = time, mousePos = pt, keyCode = 0\<rparr>"

definition keyboard_event :: "string \<Rightarrow> DWORD \<Rightarrow> POINT \<Rightarrow> UINT \<Rightarrow> InputEvent" where
  "keyboard_event tag time pt vkCode =
     \<lparr>eventType = tag, timestamp = time, mousePos = pt, keyCode = vkCode\<rparr>"

definition cursor_event :: "DWORD \<Rightarrow> POINT \<Rightarrow> InputEvent" where
  "cursor_event time pt =
     \<lparr>eventType = ''MOUSE_POS'', timestamp = time, mousePos = pt, keyCode = 0\<rparr>"

section \<open>Interleavings of the producers and the flush thread\<close>

text \<open>
  While the logger runs, two kinds of steps interleave: a producer calls \<^verbatim>\<open>logEvent\<close>,
  or the flush thread takes one step of \<^verbatim>\<open>flushThreadFunc\<close>. A flush is one step: its
  drain loop runs under the mutex, and the events pushed while it writes the file stay
  in the queue as if they had been pushed after it.
\<close>

datatype action = LogEvent InputEvent | ThreadStep

fun perform :: "action \<Rightarrow> CSVLogger \<times> world \<Rightarrow> CSVLogger \<times> world" where
  "perform (LogEvent evt) (L, W) = (logEvent L evt, W)"
| "perform ThreadStep (L, W) =
     (case m_flushThread L of
        None \<Rightarrow> (L, W)
      | Some pc \<Rightarrow>
          (case flushThreadFunc pc L W of (pc1, L1, W1) \<Rightarrow> (L1\<lparr>m_flushThread := Some pc1\<rparr>, W1)))"

fun run :: "action list \<Rightarrow> CSVLogger \<times> world \<Rightarrow> CSVLogger \<times> world" where
  "run [] s = s"
| "run (a # as) s = run as (perform a s)"

fun logged :: "action list \<Rightarrow> InputEvent list" where
  "logged [] = []"
| "logged (LogEvent evt # as) = evt # logged as"
| "logged (ThreadStep # as) = logged as"

section \<open>The record format of the specification\<close>

text \<open>
  The format as the specification words it: a record is five fields separated by
  commas and ended by a newline; the fields are the timestamp, the tag, the two
  coordinates and the key code.
\<close>

fun comma_separated :: "string list \<Rightarrow> string" where
  "comma_separated [] = []"
| "comma_separated [f] = f"
| "comma_separated (f # g # fs) = f @ '','' @ comma_separated (g # fs)"

definition csv_fields :: "InputEvent \<Rightarrow> string list" where
  "csv_fields evt =
     [dec_nat (unat (timestamp evt)), eventType evt,
      dec_int (sint (pt_x (mousePos evt))), dec_int (sint (pt_y (mousePos evt))),
      dec_nat (unat (keyCode evt))]"

definition csv_record :: "InputEvent \<Rightarrow> string" where
  "csv_record evt = comma_separated (csv_fields evt) @ ''\<newline>''"

definition csv_records :: "InputEvent list \<Rightarrow> string" where
  "csv_records evts = concat (map csv_record evts)"

section \<open>Concrete loggers, events and disks\<close>

text \<open>
  The logger of \<^verbatim>\<open>TrackerConfig\<close> (\<^verbatim>\<open>csvLogger{ "input_log.csv", 60 }\<close>), the key-down
  event of the specification's scenario, a cursor sample, and five states of the disk:
  an empty one where every file can be opened and written, one where the log already
  holds its header but can no longer be opened (another program holds it), the disk as
  a successful \<^verbatim>\<open>start\<close> leaves it, the same disk once it is full (the log opens but
  takes no more text), and an empty one where no file can be created.
\<close>

definition default_logger :: CSVLogger where
  "default_logger = CSVLogger_ctor [] ''input_log.csv'' 60"

definition key_down_event :: InputEvent where
  "key_down_event = keyboard_event ''KEY_DOWN'' 100 \<lparr>pt_x = 5, pt_y = 9\<rparr> 81"

definition cursor_sample :: InputEvent where
  "cursor_sample = cursor_event 120 \<lparr>pt_x = - 3, pt_y = 9\<rparr>"

definition empty_disk :: world where
  "empty_disk =
     \<lparr>files = Map.empty, can_open = (\<lambda>name. True), can_write = (\<lambda>name. True),
      opens = [], cerr = []\<rparr>"

definition locked_disk :: world where
  "locked_disk =
     \<lparr>files = [''input_log.csv'' \<mapsto> header_line], can_open = (\<lambda>name. False),
      can_write = (\<lambda>name. False), opens = [], cerr = []\<rparr>"

definition logging_disk :: world where
  "logging_disk =
     \<lparr>files = [''input_log.csv'' \<mapsto> header_line], can_open = (\<lambda>name. True),
      can_write = (\<lambda>name. True), opens = [(''input_log.csv'', trunc)], cerr = []\<rparr>"

definition full_disk :: world where
  "full_disk =
     \<lparr>files = [''input_log.csv'' \<mapsto> header_line], can_open = (\<lambda>name. True),
      can_write = (\<lambda>name. False), opens = [(''input_log.csv'', trunc)], cerr = []\<rparr>"

definition readonly_disk :: world where
  "readonly_disk =
     \<lparr>files = Map.empty, can_open = (\<lambda>name. False), can_write = (\<lambda>name. False),
      opens = [], cerr = []\<rparr>"

text \<open>
  The default logger while it runs, with one event in its queue and its thread half-way
  through the sleep of 60 seconds; the same logger with two events and its thread at the
  end of the sleep; and the same logger with one event and its thread about to flush.
\<close>

definition running_logger :: CSVLogger where
  "running_logger =
     default_logger\<lparr>m_running := True, m_eventQueue := [key_down_event],
                    m_flushThread := Some (Sleeping 30)\<rparr>"

definition busy_logger :: CSVLogger where
  "busy_logger =
     default_logger\<lparr>m_running := True, m_eventQueue := [key_down_event, cursor_sample],
                    m_flushThread := Some (Sleeping 0)\<rparr>"

definition flushing_logger :: CSVLogger where
  "flushing_logger =
     default_logger\<lparr>m_running := True, m_eventQueue := [key_down_event],
                    m_flushThread := Some AtFlush\<rparr>"

text \<open>The default logger just after \<^verbatim>\<open>stop\<close> has cleared the flag, its thread still asleep.\<close>

definition stopping_logger :: CSVLogger where
  "stopping_logger = default_logger\<lparr>m_flushThread := Some (Sleeping 30)\<rparr>"

section \<open>The drain loop and the write loop\<close>

lemma drain_eq: "drain q buf = ([], buf @ q)"
  by (induction q arbitrary: buf) simp_all

lemma queue_already_empty: "m_eventQueue L = [] \<Longrightarrow> L\<lparr>m_eventQueue := []\<rparr> = L"
  by (cases L) simp

lemma ofs_write_chain:
  "is_open ofs \<Longrightarrow> ofs_write ofs t (ofs_write ofs s W) = ofs_write ofs (s @ t) W"
  by (simp add: ofs_write_def file_text_def)

text \<open>The ten insertions of one pass of the write loop spell the record of the specification.\<close>

lemma csv_record_eq:
  "csv_record evt =
     put_unsigned (timestamp evt) @ '','' @ eventType evt @ '','' @
     put_signed (pt_x (mousePos evt)) @ '','' @ put_signed (pt_y (mousePos evt)) @ '','' @
     put_unsigned (keyCode evt) @ ''\<newline>''"
  by (simp add: csv_record_def csv_fields_def put_unsigned_def put_signed_def)

lemma write_events_eq:
  "is_open ofs \<Longrightarrow>
     write_events ofs evts W = (if evts = [] then W else ofs_write ofs (csv_records evts) W)"
proof (induction evts arbitrary: W)
  case Nil
  then show ?case by simp
next
  case (Cons evt rest)
  then show ?case
    by (simp add: ofs_write_chain csv_record_eq csv_records_def Let_def)
qed

section \<open>One drain-and-append cycle\<close>

lemma flushToDisk_empty: "m_eventQueue L = [] \<Longrightarrow> flushToDisk L W = (L, W)"
  by (simp add: flushToDisk_def drain_eq queue_already_empty)

text \<open>
  A cycle that opens the file: the records reach the file when it takes writes, and are
  lost without a word when it does not.
\<close>

lemma flushToDisk_opened:
  assumes "can_open W (m_filename L)" and "m_eventQueue L \<noteq> []"
  shows "flushToDisk L W =
    (L\<lparr>m_eventQueue := []\<rparr>,
     W\<lparr>opens := opens W @ [(m_filename L, app)],
       files := (files W)(m_filename L \<mapsto>
         file_text W (m_filename L) @
           (if can_write W (m_filename L) then csv_records (m_eventQueue L) else []))\<rparr>)"
  using assms
  by (simp add: flushToDisk_def drain_eq ofstream_open_def write_events_eq ofs_write_def
      file_text_def)

lemma flushToDisk_dropped:
  assumes "\<not> can_open W (m_filename L)" and "m_eventQueue L \<noteq> []"
  shows "flushToDisk L W =
    (L\<lparr>m_eventQueue := []\<rparr>,
     W\<lparr>opens := opens W @ [(m_filename L, app)],
       cerr := cerr W @ ''Failed to open CSV file for appending: '' @ m_filename L
                 @ ''\<newline>''\<rparr>)"
  using assms
  by (simp add: flushToDisk_def drain_eq ofstream_open_def)

lemma flushToDisk_logger: "fst (flushToDisk L W) = L\<lparr>m_eventQueue := []\<rparr>"
  by (simp add: flushToDisk_def drain_eq ofstream_open_def Let_def split: prod.splits)

lemma flushToDisk_can_open: "can_open (snd (flushToDisk L W)) = can_open W"
proof (cases "m_eventQueue L = []")
  case True
  then show ?thesis by (simp add: flushToDisk_empty)
next
  case False
  then show ?thesis
    by (cases "can_open W (m_filename L)") (simp_all add: flushToDisk_opened flushToDisk_dropped)
qed

lemma flushToDisk_can_write: "can_write (snd (flushToDisk L W)) = can_write W"
proof (cases "m_eventQueue L = []")
  case True
  then show ?thesis by (simp add: flushToDisk_empty)
next
  case False
  then show ?thesis
    by (cases "can_open W (m_filename L)") (simp_all add: flushToDisk_opened flushToDisk_dropped)
qed

lemma flushToDisk_cerr:
  "can_open W (m_filename L) \<Longrightarrow> cerr (snd (flushToDisk L W)) = cerr W"
  by (cases "m_eventQueue L = []") (simp_all add: flushToDisk_empty flushToDisk_opened)

lemma flushToDisk_file_text:
  assumes "can_open W (m_filename L)"
  shows "file_text (snd (flushToDisk L W)) (m_filename L) =
           file_text W (m_filename L) @
             (if can_write W (m_filename L) then csv_records (m_eventQueue L) else [])"
proof (cases "m_eventQueue L = []")
  case True
  then show ?thesis by (simp add: flushToDisk_empty csv_records_def)
next
  case False
  with assms show ?thesis by (simp add: flushToDisk_opened file_text_def)
qed

section \<open>Joining the flush thread once the flag is cleared\<close>

lemma join_Returned: "join Returned L W = Some (L, W)"
  by (subst join.simps) simp

lemma join_AtWhile: "\<not> m_running L \<Longrightarrow> join AtWhile L W = Some (L, W)"
  by (subst join.simps) (simp add: join_Returned)

lemma join_AtBreakCheck: "\<not> m_running L \<Longrightarrow> join AtBreakCheck L W = Some (L, W)"
  by (subst join.simps) (simp add: join_Returned)

lemma join_Sleeping: "\<not> m_running L \<Longrightarrow> join (Sleeping k) L W = Some (L, W)"
proof (induction k)
  case 0
  then show ?case by (subst join.simps) (simp add: join_AtBreakCheck)
next
  case (Suc k)
  then show ?case by (subst join.simps) simp
qed

lemma join_AtFlush:
  assumes "\<not> m_running L"
  shows "join AtFlush L W = Some (flushToDisk L W)"
proof -
  obtain L1 W1 where f: "flushToDisk L W = (L1, W1)" by (cases "flushToDisk L W")
  have "L1 = L\<lparr>m_eventQueue := []\<rparr>" using flushToDisk_logger [of L W] f by simp
  with assms have "\<not> m_running L1" by simp
  then have "join AtWhile L1 W1 = Some (L1, W1)" by (rule join_AtWhile)
  then show ?thesis by (subst join.simps) (simp add: f)
qed

lemma join_stopped:
  "\<not> m_running L \<Longrightarrow>
     join pc L W = Some (if pc = AtFlush then flushToDisk L W else (L, W))"
  by (cases pc)
    (simp_all add: join_Returned join_AtWhile join_AtBreakCheck join_Sleeping join_AtFlush)

section \<open>Stopping a running logger\<close>

lemma flushToDisk_thread:
  "flushToDisk (L\<lparr>m_flushThread := t\<rparr>) W =
     (fst (flushToDisk L W)\<lparr>m_flushThread := t\<rparr>, snd (flushToDisk L W))"
  by (simp add: flushToDisk_def drain_eq ofstream_open_def Let_def split: prod.splits)

text \<open>
  On a running logger \<^verbatim>\<open>stop\<close> returns, and what it does is one drain-and-append cycle:
  wherever the thread is when the flag is cleared, the join and the final flush together
  flush the queue once.
\<close>

lemma stop_eq:
  assumes "m_running L"
  shows "stop L W = Some (flushToDisk (L\<lparr>m_running := False, m_flushThread := None\<rparr>) W)"
proof (cases "m_flushThread L")
  case None
  then have eq: "L\<lparr>m_running := False, m_flushThread := None\<rparr> = L\<lparr>m_running := False\<rparr>"
    by (cases L) simp
  from assms None have "stop L W = Some (flushToDisk (L\<lparr>m_running := False\<rparr>) W)"
    by (simp add: stop_def)
  then show ?thesis by (simp only: eq)
next
  case (Some pc)
  let ?L1 = "L\<lparr>m_running := False\<rparr>"
  have j: "join pc ?L1 W = Some (if pc = AtFlush then flushToDisk ?L1 W else (?L1, W))"
    by (rule join_stopped) simp
  show ?thesis
  proof (cases "pc = AtFlush")
    case True
    obtain L2 W2 where f: "flushToDisk ?L1 W = (L2, W2)" by (cases "flushToDisk ?L1 W")
    have L2: "L2 = ?L1\<lparr>m_eventQueue := []\<rparr>" using flushToDisk_logger [of ?L1 W] f by simp
    then have "flushToDisk (L2\<lparr>m_flushThread := None\<rparr>) W2 = (L2\<lparr>m_flushThread := None\<rparr>, W2)"
      by (simp add: flushToDisk_empty)
    with assms Some True j f show ?thesis
      by (simp add: stop_def flushToDisk_thread [where t = None])
  next
    case False
    with assms Some j show ?thesis by (simp add: stop_def)
  qed
qed

section \<open>What an interleaving preserves\<close>

lemma flushThreadFunc_effect:
  "snd (flushThreadFunc pc L W) = (if pc = AtFlush then flushToDisk L W else (L, W))"
proof (cases pc)
  case (Sleeping k)
  then show ?thesis by (cases k) simp_all
qed (simp_all split: prod.splits)

lemma csv_records_append: "csv_records (xs @ ys) = csv_records xs @ csv_records ys"
  by (simp add: csv_records_def)

text \<open>
  While the file can be opened and takes writes, the text of the file followed by the
  records of the queue grows by the record of each logged event and by nothing else.
\<close>

lemma perform_invariant:
  assumes "can_open W (m_filename L)" and "can_write W (m_filename L)"
    and "perform a (L, W) = (L', W')"
  shows "can_open W' = can_open W \<and> can_write W' = can_write W \<and>
         m_filename L' = m_filename L \<and> m_running L' = m_running L \<and>
         file_text W' (m_filename L) @ csv_records (m_eventQueue L') =
         file_text W (m_filename L) @ csv_records (m_eventQueue L) @ csv_records (logged [a])"
proof (cases a)
  case (LogEvent evt)
  with assms show ?thesis by (auto simp: logEvent_def csv_records_append)
next
  case ThreadStep
  show ?thesis
  proof (cases "m_flushThread L")
    case None
    with assms ThreadStep show ?thesis by (auto simp: csv_records_def)
  next
    case (Some pc)
    obtain pc1 L1 W1 where s: "flushThreadFunc pc L W = (pc1, L1, W1)"
      by (cases "flushThreadFunc pc L W")
    with assms ThreadStep Some have r: "L' = L1\<lparr>m_flushThread := Some pc1\<rparr>" "W' = W1"
      by simp_all
    from s flushThreadFunc_effect [of pc L W]
    have e: "(L1, W1) = (if pc = AtFlush then flushToDisk L W else (L, W))" by simp
    show ?thesis
    proof (cases "pc = AtFlush")
      case True
      with e have f: "flushToDisk L W = (L1, W1)" by simp
      then have "L1 = L\<lparr>m_eventQueue := []\<rparr>" using flushToDisk_logger [of L W] by simp
      moreover have "can_open W1 = can_open W" using flushToDisk_can_open [of L W] f by simp
      moreover have "can_write W1 = can_write W" using flushToDisk_can_write [of L W] f by simp
      moreover have "file_text W1 (m_filename L) =
          file_text W (m_filename L) @ csv_records (m_eventQueue L)"
        using flushToDisk_file_text [OF assms(1)] assms(2) f by simp
      ultimately show ?thesis using r ThreadStep by (simp add: csv_records_def)
    next
      case False
      with e r ThreadStep show ?thesis by (simp add: csv_records_def)
    qed
  qed
qed

lemma logged_Cons:
  "csv_records (logged (a # as)) = csv_records (logged [a]) @ csv_records (logged as)"
  by (cases a) (simp_all add: csv_records_def)

lemma run_invariant:
  assumes "can_open W (m_filename L)" and "can_write W (m_filename L)"
    and "run as (L, W) = (L', W')"
  shows "can_open W' = can_open W \<and> can_write W' = can_write W \<and>
         m_filename L' = m_filename L \<and> m_running L' = m_running L \<and>
         file_text W' (m_filename L) @ csv_records (m_eventQueue L') =
         file_text W (m_filename L) @ csv_records (m_eventQueue L @ logged as)"
  using assms
proof (induction as arbitrary: L W)
  case Nil
  then show ?case by (simp add: csv_records_def)
next
  case (Cons a as)
  obtain L1 W1 where p: "perform a (L, W) = (L1, W1)" by (cases "perform a (L, W)")
  note i = perform_invariant [OF Cons.prems(1) Cons.prems(2) p]
  from Cons.prems p have r: "run as (L1, W1) = (L', W')" by simp
  from i Cons.prems(1) have o: "can_open W1 (m_filename L1)" by simp
  from i Cons.prems(2) have w: "can_write W1 (m_filename L1)" by simp
  note h = Cons.IH [OF o w r]
  from i h show ?case by (simp add: csv_records_append logged_Cons [of a as])
qed

section \<open>Sequences of calls and of thread steps\<close>

lemma dec_nat_0: "dec_nat 0 = ''0''"
  by (simp add: dec_nat.simps digit_char_def)

lemma foldl_logEvent_queue: "m_eventQueue (foldl logEvent L evts) = m_eventQueue L @ evts"
  by (induction evts arbitrary: L) (simp_all add: logEvent_def)

lemma foldl_logEvent_rest:
  "m_running (foldl logEvent L evts) = m_running L \<and>
   m_flushThread (foldl logEvent L evts) = m_flushThread L \<and>
   m_filename (foldl logEvent L evts) = m_filename L \<and>
   m_flushIntervalSec (foldl logEvent L evts) = m_flushIntervalSec L"
  by (induction evts arbitrary: L) (simp_all add: logEvent_def)

lemma start_stopped:
  assumes "\<not> m_running L" and "m_flushThread L = None"
  shows "start L W =
    Inr (L\<lparr>m_running := True, m_flushThread := Some AtWhile\<rparr>,
         if can_open W (m_filename L)
         then W\<lparr>opens := opens W @ [(m_filename L, trunc)],
                files := (files W)(m_filename L \<mapsto>
                  (if can_write W (m_filename L) then header_line else []))\<rparr>
         else W\<lparr>opens := opens W @ [(m_filename L, trunc)]\<rparr>)"
  using assms by (simp add: start_def ofstream_open_def ofs_write_def file_text_def)

lemma sleeping_steps:
  assumes "m_flushThread L = Some (Sleeping k)" and "j \<le> k"
  shows "run (replicate j ThreadStep) (L, W) =
           (L\<lparr>m_flushThread := Some (Sleeping (k - j))\<rparr>, W)"
  using assms
proof (induction j arbitrary: L k)
  case 0
  then show ?case by (cases L) simp
next
  case (Suc j)
  then obtain k' where k: "k = Suc k'" by (cases k) simp_all
  let ?L1 = "L\<lparr>m_flushThread := Some (Sleeping k')\<rparr>"
  have "run (replicate j ThreadStep) (?L1, W) =
          (?L1\<lparr>m_flushThread := Some (Sleeping (k' - j))\<rparr>, W)"
    using Suc.prems k by (intro Suc.IH) simp_all
  with Suc.prems k show ?case by simp
qed

lemma run_append: "run (as @ bs) s = run bs (run as s)"
  by (induction as arbitrary: s) simp_all

lemma wake_up_steps:
  assumes "\<not> m_running L" and "m_flushThread L = Some (Sleeping k)"
  shows "run (replicate (k + 2) ThreadStep) (L, W) = (L\<lparr>m_flushThread := Some Returned\<rparr>, W)"
proof -
  have "replicate (k + 2) ThreadStep = replicate k ThreadStep @ replicate 2 ThreadStep"
    by (rule replicate_add)
  moreover have "replicate 2 ThreadStep = [ThreadStep, ThreadStep]"
    by (simp add: numeral_2_eq_2)
  moreover have "run (replicate k ThreadStep) (L, W) =
      (L\<lparr>m_flushThread := Some (Sleeping 0)\<rparr>, W)"
    using sleeping_steps [OF assms(2), of k W] by simp
  ultimately show ?thesis using assms(1) by (simp add: run_append)
qed

lemma run_LogEvents: "run (map LogEvent evts) (L, W) = (foldl logEvent L evts, W)"
  by (induction evts arbitrary: L) simp_all

text \<open>
  One turn of the loop of a running thread: from the loop head, the sleep of the whole
  interval, the second test of the flag, and the flush, back to the loop head.
\<close>

lemma loop_turn:
  assumes "m_running L" and "m_flushThread L = Some AtWhile"
  shows "run (replicate (nat (m_flushIntervalSec L) + 4) ThreadStep) (L, W) =
           (fst (flushToDisk L W)\<lparr>m_flushThread := Some AtWhile\<rparr>, snd (flushToDisk L W))"
proof -
  let ?n = "nat (m_flushIntervalSec L)"
  let ?L1 = "L\<lparr>m_flushThread := Some (Sleeping ?n)\<rparr>"
  have "replicate (?n + 4) ThreadStep =
          [ThreadStep] @ replicate ?n ThreadStep @ [ThreadStep, ThreadStep, ThreadStep]"
    by (simp add: replicate_add numeral_eq_Suc replicate_app_Cons_same)
  moreover have "run [ThreadStep] (L, W) = (?L1, W)"
    using assms by simp
  moreover have "run (replicate ?n ThreadStep) (?L1, W) =
      (?L1\<lparr>m_flushThread := Some (Sleeping (?n - ?n))\<rparr>, W)"
    by (rule sleeping_steps) simp_all
  moreover have "run [ThreadStep, ThreadStep, ThreadStep]
      (?L1\<lparr>m_flushThread := Some (Sleeping (?n - ?n))\<rparr>, W) =
      (fst (flushToDisk L W)\<lparr>m_flushThread := Some AtWhile\<rparr>, snd (flushToDisk L W))"
    using assms(1)
    by (simp add: flushToDisk_thread [where t = "Some AtFlush"] split: prod.splits)
  ultimately show ?thesis by (simp only: run_append)
qed

section \<open>Concrete records and states\<close>

lemma key_down_record: "csv_record key_down_event = ''100,KEY_DOWN,5,9,81\<newline>''"
  by code_simp

lemma cursor_sample_record: "csv_record cursor_sample = ''120,MOUSE_POS,-3,9,0\<newline>''"
  by code_simp

lemma started_state:
  "start default_logger empty_disk =
     Inr (default_logger\<lparr>m_running := True, m_flushThread := Some AtWhile\<rparr>,
          empty_disk\<lparr>opens := [(''input_log.csv'', trunc)],
                     files := [''input_log.csv'' \<mapsto> header_line]\<rparr>)"
  by (simp add: start_stopped default_logger_def CSVLogger_ctor_def empty_disk_def)

lemma stopped_state:
  "stop running_logger logging_disk =
     Some (default_logger,
           logging_disk\<lparr>opens := [(''input_log.csv'', trunc), (''input_log.csv'', app)],
                        files := [''input_log.csv'' \<mapsto>
                                    header_line @ csv_record key_down_event]\<rparr>)"
proof -
  have r: "m_running running_logger" by (simp add: running_logger_def)
  have d: "running_logger\<lparr>m_running := False, m_flushThread := None\<rparr> =
           default_logger\<lparr>m_eventQueue := [key_down_event]\<rparr>"
    by (simp add: running_logger_def default_logger_def CSVLogger_ctor_def)
  show ?thesis
    unfolding stop_eq [OF r] d
    by (simp add: flushToDisk_opened default_logger_def CSVLogger_ctor_def logging_disk_def
        file_text_def csv_records_def)
qed

section \<open>The event queue\<close>

text \<open>
  C4. The drain loop of \<^verbatim>\<open>flushToDisk\<close>, started on any queue with an empty buffer, ends
  with the queue empty and the buffer holding exactly the queued events, front first; a
  second drain right after it returns the empty sequence. After any sequence of
  \<^verbatim>\<open>logEvent\<close> calls the drained sequence is the old queue followed by the logged events
  in the order of the calls, and every drain-and-append cycle leaves the queue empty.
\<close>

theorem drainAll_fifo:
  "drain q [] = ([], q) \<and>
   drain (fst (drain q [])) [] = ([], []) \<and>
   drain (m_eventQueue (foldl logEvent L evts)) [] = ([], m_eventQueue L @ evts) \<and>
   m_eventQueue (fst (flushToDisk L W)) = []"
  by (simp add: drain_eq foldl_logEvent_queue flushToDisk_logger)

text \<open>
  C9. \<^verbatim>\<open>logEvent\<close> puts the event at the tail of the queue whatever the running flag is,
  and changes neither the flag nor the thread. A sequence of calls adds the events in
  order; on a logger that was just constructed, which is stopped, they are all buffered
  and the logger stays stopped.
\<close>

theorem logEvent_unguarded:
  "m_eventQueue (logEvent L evt) = m_eventQueue L @ [evt] \<and>
   m_running (logEvent L evt) = m_running L \<and>
   m_flushThread (logEvent L evt) = m_flushThread L \<and>
   m_eventQueue (foldl logEvent L evts) = m_eventQueue L @ evts \<and>
   m_running (foldl logEvent L evts) = m_running L \<and>
   m_eventQueue (foldl logEvent (CSVLogger_ctor ts filename n) evts) = evts \<and>
   \<not> m_running (foldl logEvent (CSVLogger_ctor ts filename n) evts)"
  by (simp add: foldl_logEvent_queue foldl_logEvent_rest)
    (simp add: logEvent_def CSVLogger_ctor_def)

section \<open>The drain-and-append cycle\<close>

text \<open>
  C8. When the drain of a cycle returns the empty sequence, \<^verbatim>\<open>flushToDisk\<close> returns with
  the logger and the world as they were: no file is opened (the log of opens is the
  same) and the contents of every file are the same.
\<close>

theorem empty_cycle_leaves_file:
  assumes "snd (drain (m_eventQueue L) []) = []"
  shows "flushToDisk L W = (L, W) \<and>
         files (snd (flushToDisk L W)) = files W \<and>
         opens (snd (flushToDisk L W)) = opens W"
  using assms by (simp add: drain_eq flushToDisk_empty)

theorem empty_cycle_leaves_file_witness:
  "snd (drain (m_eventQueue default_logger) []) = [] \<and>
   flushToDisk default_logger locked_disk = (default_logger, locked_disk) \<and>
   file_text (snd (flushToDisk default_logger locked_disk)) ''input_log.csv'' =
     ''timestamp_ms,event_type,x,y,key_code\<newline>''"
  using empty_cycle_leaves_file [of default_logger locked_disk]
  by (simp add: default_logger_def CSVLogger_ctor_def locked_disk_def file_text_def
      header_line_def)

text \<open>
  C7. When the file cannot be opened for appending and the queue is not empty,
  \<^verbatim>\<open>flushToDisk\<close> returns normally with the queue empty, the files untouched and the
  failure written to \<^verbatim>\<open>std::cerr\<close>: the drained events are neither written nor put back.
  When it is the flush thread that ran this cycle, the thread is back at the head of its
  loop and the logger still runs. Let the file become usable again (\<open>ok\<close> and \<open>wr\<close> are
  the files that can be opened and written from then on) and let the events \<open>evts\<close> be
  logged: the next turn of the loop, after the sleep of the whole interval, appends
  exactly the records of \<open>evts\<close> to the file and leaves the thread at the head of the
  loop again; the events of the failed cycle are not in the file and nothing more is
  written to \<^verbatim>\<open>std::cerr\<close>. The same holds for a cycle called directly in any world \<open>W2\<close>
  where the file can be opened and written.
\<close>

theorem append_failure_drops_cycle:
  assumes "\<not> can_open W (m_filename L)" and "m_eventQueue L \<noteq> []"
  shows "flushToDisk L W =
           (L\<lparr>m_eventQueue := []\<rparr>,
            W\<lparr>opens := opens W @ [(m_filename L, app)],
              cerr := cerr W @ ''Failed to open CSV file for appending: '' @ m_filename L
                        @ ''\<newline>''\<rparr>) \<and>
         (m_flushThread L = Some AtFlush \<longrightarrow>
            perform ThreadStep (L, W) =
              (L\<lparr>m_eventQueue := [], m_flushThread := Some AtWhile\<rparr>,
               W\<lparr>opens := opens W @ [(m_filename L, app)],
                 cerr := cerr W @ ''Failed to open CSV file for appending: '' @ m_filename L
                           @ ''\<newline>''\<rparr>)) \<and>
         (m_running L \<and> m_flushThread L = Some AtFlush \<and>
          ok (m_filename L) \<and> wr (m_filename L) \<longrightarrow>
            (\<exists>L3 W3.
               run (map LogEvent evts @
                    replicate (nat (m_flushIntervalSec L) + 4) ThreadStep)
                 (fst (perform ThreadStep (L, W)),
                  snd (perform ThreadStep (L, W))\<lparr>can_open := ok, can_write := wr\<rparr>) = (L3, W3) \<and>
               m_running L3 \<and> m_flushThread L3 = Some AtWhile \<and> m_eventQueue L3 = [] \<and>
               file_text W3 (m_filename L) = file_text W (m_filename L) @ csv_records evts \<and>
               cerr W3 = cerr W @ ''Failed to open CSV file for appending: '' @ m_filename L
                           @ ''\<newline>'')) \<and>
         (can_open W2 (m_filename L) \<and> can_write W2 (m_filename L) \<longrightarrow>
            file_text (snd (flushToDisk (foldl logEvent (fst (flushToDisk L W)) evts) W2))
              (m_filename L) = file_text W2 (m_filename L) @ csv_records evts)"
proof -
  let ?msg = "''Failed to open CSV file for appending: '' @ m_filename L @ ''\<newline>''"
  let ?Wf = "W\<lparr>opens := opens W @ [(m_filename L, app)], cerr := cerr W @ ?msg\<rparr>"
  have f: "flushToDisk L W = (L\<lparr>m_eventQueue := []\<rparr>, ?Wf)"
    using assms by (simp add: flushToDisk_dropped)
  have p: "perform ThreadStep (L, W) =
      (L\<lparr>m_eventQueue := [], m_flushThread := Some AtWhile\<rparr>, ?Wf)"
    if "m_flushThread L = Some AtFlush"
    using that f by simp
  have loop: "\<exists>L3 W3.
      run (map LogEvent evts @ replicate (nat (m_flushIntervalSec L) + 4) ThreadStep)
        (fst (perform ThreadStep (L, W)),
         snd (perform ThreadStep (L, W))\<lparr>can_open := ok, can_write := wr\<rparr>) = (L3, W3) \<and>
      m_running L3 \<and> m_flushThread L3 = Some AtWhile \<and> m_eventQueue L3 = [] \<and>
      file_text W3 (m_filename L) = file_text W (m_filename L) @ csv_records evts \<and>
      cerr W3 = cerr W @ ?msg"
    if r: "m_running L" and t: "m_flushThread L = Some AtFlush"
      and o: "ok (m_filename L)" and w: "wr (m_filename L)"
  proof -
    let ?L1 = "L\<lparr>m_eventQueue := [], m_flushThread := Some AtWhile\<rparr>"
    let ?W1 = "?Wf\<lparr>can_open := ok, can_write := wr\<rparr>"
    let ?L2 = "foldl logEvent ?L1 evts"
    have L2: "m_running ?L2" "m_flushThread ?L2 = Some AtWhile" "m_filename ?L2 = m_filename L"
      "m_flushIntervalSec ?L2 = m_flushIntervalSec L" "m_eventQueue ?L2 = evts"
      using r by (simp_all add: foldl_logEvent_rest foldl_logEvent_queue)
    have W1: "can_open ?W1 (m_filename ?L2)" "can_write ?W1 (m_filename ?L2)"
      using o w L2(3) by simp_all
    have "run (replicate (nat (m_flushIntervalSec ?L2) + 4) ThreadStep) (?L2, ?W1) =
        (fst (flushToDisk ?L2 ?W1)\<lparr>m_flushThread := Some AtWhile\<rparr>, snd (flushToDisk ?L2 ?W1))"
      using L2(1) L2(2) by (rule loop_turn)
    then have "run (map LogEvent evts @ replicate (nat (m_flushIntervalSec L) + 4) ThreadStep)
        (?L1, ?W1) =
        (fst (flushToDisk ?L2 ?W1)\<lparr>m_flushThread := Some AtWhile\<rparr>, snd (flushToDisk ?L2 ?W1))"
      by (simp only: run_append run_LogEvents L2(4))
    moreover have "fst (flushToDisk ?L2 ?W1) = ?L2\<lparr>m_eventQueue := []\<rparr>"
      by (rule flushToDisk_logger)
    moreover have "file_text (snd (flushToDisk ?L2 ?W1)) (m_filename ?L2) =
        file_text ?W1 (m_filename ?L2) @
          (if can_write ?W1 (m_filename ?L2) then csv_records (m_eventQueue ?L2) else [])"
      using W1(1) by (rule flushToDisk_file_text)
    moreover have "cerr (snd (flushToDisk ?L2 ?W1)) = cerr ?W1"
      using W1(1) by (rule flushToDisk_cerr)
    moreover have "file_text ?W1 (m_filename L) = file_text W (m_filename L)"
      by (simp add: file_text_def)
    ultimately show ?thesis
      using L2 W1 p [OF t] by simp
  qed
  let ?La = "foldl logEvent (fst (flushToDisk L W)) evts"
  have n: "m_filename ?La = m_filename L"
    by (simp add: foldl_logEvent_rest flushToDisk_logger)
  have q: "m_eventQueue ?La = evts"
    by (simp add: foldl_logEvent_queue flushToDisk_logger)
  have direct: "file_text (snd (flushToDisk ?La W2)) (m_filename L) =
          file_text W2 (m_filename L) @ csv_records evts"
    if "can_open W2 (m_filename L)" and "can_write W2 (m_filename L)"
    using flushToDisk_file_text [of W2 ?La] that n q by simp
  from f p loop direct show ?thesis by blast
qed

theorem append_failure_drops_cycle_witness:
  "\<not> can_open locked_disk (m_filename flushing_logger) \<and>
   m_eventQueue flushing_logger \<noteq> [] \<and>
   m_running flushing_logger \<and> m_flushThread flushing_logger = Some AtFlush \<and>
   can_open logging_disk (m_filename flushing_logger) \<and>
   can_write logging_disk (m_filename flushing_logger) \<and>
   flushToDisk flushing_logger locked_disk =
     (flushing_logger\<lparr>m_eventQueue := []\<rparr>,
      locked_disk\<lparr>opens := [(''input_log.csv'', app)],
                  cerr := ''Failed to open CSV file for appending: input_log.csv\<newline>''\<rparr>) \<and>
   perform ThreadStep (flushing_logger, locked_disk) =
     (flushing_logger\<lparr>m_eventQueue := [], m_flushThread := Some AtWhile\<rparr>,
      locked_disk\<lparr>opens := [(''input_log.csv'', app)],
                  cerr := ''Failed to open CSV file for appending: input_log.csv\<newline>''\<rparr>) \<and>
   (\<exists>L3 W3.
      run (map LogEvent [cursor_sample] @ replicate 64 ThreadStep)
        (fst (perform ThreadStep (flushing_logger, locked_disk)),
         snd (perform ThreadStep (flushing_logger, locked_disk))
           \<lparr>can_open := can_open logging_disk, can_write := can_write logging_disk\<rparr>) =
        (L3, W3) \<and>
      m_running L3 \<and> m_flushThread L3 = Some AtWhile \<and> m_eventQueue L3 = [] \<and>
      file_text W3 ''input_log.csv'' =
        ''timestamp_ms,event_type,x,y,key_code\<newline>120,MOUSE_POS,-3,9,0\<newline>'' \<and>
      cerr W3 = ''Failed to open CSV file for appending: input_log.csv\<newline>'') \<and>
   file_text (snd (flushToDisk
       (foldl logEvent (fst (flushToDisk flushing_logger locked_disk)) [cursor_sample])
       logging_disk)) ''input_log.csv'' =
     ''timestamp_ms,event_type,x,y,key_code\<newline>120,MOUSE_POS,-3,9,0\<newline>''"
proof -
  have n: "m_filename flushing_logger = ''input_log.csv''"
    "nat (m_flushIntervalSec flushing_logger) + 4 = 64"
    by (simp_all add: flushing_logger_def default_logger_def CSVLogger_ctor_def)
  have h1: "\<not> can_open locked_disk (m_filename flushing_logger)"
    by (simp add: locked_disk_def)
  have h2: "m_eventQueue flushing_logger \<noteq> []"
    and h3: "m_running flushing_logger"
    and h4: "m_flushThread flushing_logger = Some AtFlush"
    by (simp_all add: flushing_logger_def)
  have h5: "can_open logging_disk (m_filename flushing_logger)"
    and h6: "can_write logging_disk (m_filename flushing_logger)"
    by (simp_all add: logging_disk_def)
  have w: "opens locked_disk = []" "cerr locked_disk = []"
    "file_text locked_disk ''input_log.csv'' = header_line"
    "file_text logging_disk ''input_log.csv'' = header_line"
    by (simp_all add: locked_disk_def logging_disk_def file_text_def)
  note t = append_failure_drops_cycle [OF h1 h2, of "can_open logging_disk"
      "can_write logging_disk" "[cursor_sample]" logging_disk]
  note t1 = t [THEN conjunct1]
  note t2 = t [THEN conjunct2, THEN conjunct1, rule_format, OF h4]
  note t3 = t [THEN conjunct2, THEN conjunct2, THEN conjunct1, rule_format,
      OF conjI [OF h3 conjI [OF h4 conjI [OF h5 h6]]]]
  note t4 = t [THEN conjunct2, THEN conjunct2, THEN conjunct2, rule_format, OF conjI [OF h5 h6]]
  have a: "flushToDisk flushing_logger locked_disk =
     (flushing_logger\<lparr>m_eventQueue := []\<rparr>,
      locked_disk\<lparr>opens := [(''input_log.csv'', app)],
                  cerr := ''Failed to open CSV file for appending: input_log.csv\<newline>''\<rparr>)"
    using t1 by (simp add: n w)
  have b: "perform ThreadStep (flushing_logger, locked_disk) =
     (flushing_logger\<lparr>m_eventQueue := [], m_flushThread := Some AtWhile\<rparr>,
      locked_disk\<lparr>opens := [(''input_log.csv'', app)],
                  cerr := ''Failed to open CSV file for appending: input_log.csv\<newline>''\<rparr>)"
    using t2 by (simp add: n w)
  have c: "\<exists>L3 W3.
      run (map LogEvent [cursor_sample] @ replicate 64 ThreadStep)
        (fst (perform ThreadStep (flushing_logger, locked_disk)),
         snd (perform ThreadStep (flushing_logger, locked_disk))
           \<lparr>can_open := can_open logging_disk, can_write := can_write logging_disk\<rparr>) =
        (L3, W3) \<and>
      m_running L3 \<and> m_flushThread L3 = Some AtWhile \<and> m_eventQueue L3 = [] \<and>
      file_text W3 ''input_log.csv'' =
        ''timestamp_ms,event_type,x,y,key_code\<newline>120,MOUSE_POS,-3,9,0\<newline>'' \<and>
      cerr W3 = ''Failed to open CSV file for appending: input_log.csv\<newline>''"
    using t3 unfolding n w
    by (simp add: csv_records_def cursor_sample_record header_line_def)
  have d: "file_text (snd (flushToDisk
       (foldl logEvent (fst (flushToDisk flushing_logger locked_disk)) [cursor_sample])
       logging_disk)) ''input_log.csv'' =
     ''timestamp_ms,event_type,x,y,key_code\<newline>120,MOUSE_POS,-3,9,0\<newline>''"
    using t4 unfolding n w
    by (simp add: csv_records_def cursor_sample_record header_line_def)
  from h1 h2 h3 h4 h5 h6 a b c d show ?thesis by blast
qed

section \<open>The lifecycle\<close>

lemma start_running: "m_running L \<Longrightarrow> start L W = Inr (L, W)"
  by (simp add: start_def)

lemma stop_stopped: "\<not> m_running L \<Longrightarrow> stop L W = Some (L, W)"
  by (simp add: stop_def)

lemma start_result_running: "start L W = Inr (L', W') \<Longrightarrow> m_running L'"
  by (auto simp: start_def Let_def split: if_splits prod.splits option.splits)

lemma stop_result_stopped:
  assumes "stop L W = Some (L', W')"
  shows "\<not> m_running L'"
proof (cases "m_running L")
  case True
  with assms have "flushToDisk (L\<lparr>m_running := False, m_flushThread := None\<rparr>) W = (L', W')"
    by (simp add: stop_eq)
  then have "L' = L\<lparr>m_running := False, m_flushThread := None, m_eventQueue := []\<rparr>"
    using flushToDisk_logger [of "L\<lparr>m_running := False, m_flushThread := None\<rparr>" W] by simp
  then show ?thesis by simp
next
  case False
  with assms show ?thesis by (simp add: stop_def)
qed

text \<open>
  C5. \<^verbatim>\<open>start\<close> on a running logger returns with the logger and the world unchanged: the
  file is not opened, truncated or written and the thread is the one it was. \<^verbatim>\<open>stop\<close> on
  a stopped logger returns with the logger and the world unchanged. Hence a second
  \<^verbatim>\<open>start\<close> right after a \<^verbatim>\<open>start\<close> that returned, and a second \<^verbatim>\<open>stop\<close> right after a
  \<^verbatim>\<open>stop\<close> that returned, change nothing.
\<close>

theorem start_stop_idempotent:
  "(m_running L \<longrightarrow> start L W = Inr (L, W)) \<and>
   (\<not> m_running L \<longrightarrow> stop L W = Some (L, W)) \<and>
   (start L W = Inr (L', W') \<longrightarrow> start L' W' = Inr (L', W')) \<and>
   (stop L W = Some (L', W') \<longrightarrow> stop L' W' = Some (L', W'))"
  using start_running stop_stopped start_result_running stop_result_stopped by blast

theorem start_stop_idempotent_witness:
  "m_running running_logger \<and>
   start running_logger logging_disk = Inr (running_logger, logging_disk) \<and>
   \<not> m_running default_logger \<and>
   stop default_logger logging_disk = Some (default_logger, logging_disk) \<and>
   start default_logger empty_disk =
     Inr (default_logger\<lparr>m_running := True, m_flushThread := Some AtWhile\<rparr>,
          empty_disk\<lparr>opens := [(''input_log.csv'', trunc)],
                     files := [''input_log.csv'' \<mapsto> header_line]\<rparr>) \<and>
   start (default_logger\<lparr>m_running := True, m_flushThread := Some AtWhile\<rparr>)
         (empty_disk\<lparr>opens := [(''input_log.csv'', trunc)],
                     files := [''input_log.csv'' \<mapsto> header_line]\<rparr>) =
     Inr (default_logger\<lparr>m_running := True, m_flushThread := Some AtWhile\<rparr>,
          empty_disk\<lparr>opens := [(''input_log.csv'', trunc)],
                     files := [''input_log.csv'' \<mapsto> header_line]\<rparr>) \<and>
   stop running_logger logging_disk =
     Some (default_logger,
           logging_disk\<lparr>opens := [(''input_log.csv'', trunc), (''input_log.csv'', app)],
                        files := [''input_log.csv'' \<mapsto>
                                    header_line @ csv_record key_down_event]\<rparr>) \<and>
   stop default_logger
        (logging_disk\<lparr>opens := [(''input_log.csv'', trunc), (''input_log.csv'', app)],
                      files := [''input_log.csv'' \<mapsto>
                                  header_line @ csv_record key_down_event]\<rparr>) =
     Some (default_logger,
           logging_disk\<lparr>opens := [(''input_log.csv'', trunc), (''input_log.csv'', app)],
                        files := [''input_log.csv'' \<mapsto>
                                    header_line @ csv_record key_down_event]\<rparr>)"
proof -
  have r: "m_running running_logger" by (simp add: running_logger_def)
  have s: "\<not> m_running default_logger" by (simp add: default_logger_def CSVLogger_ctor_def)
  note a = start_stop_idempotent [of running_logger logging_disk running_logger logging_disk]
  note b = start_stop_idempotent [of default_logger logging_disk default_logger logging_disk]
  note c = start_stop_idempotent [of default_logger empty_disk _ _ , THEN conjunct2,
      THEN conjunct2, THEN conjunct1, rule_format, OF started_state]
  note d = start_stop_idempotent [of running_logger logging_disk _ _ , THEN conjunct2,
      THEN conjunct2, THEN conjunct2, rule_format, OF stopped_state]
  from r s a b c d started_state stopped_state show ?thesis by simp
qed

text \<open>
  A stopped logger never holds a joinable thread: the constructor builds it so, \<^verbatim>\<open>stop\<close>
  joins the thread before it returns, \<^verbatim>\<open>start\<close> returns with the flag set, and neither a
  \<^verbatim>\<open>logEvent\<close> nor a step of the thread touches the flag or makes a thread appear. So the
  assignment of line 119 never meets a joinable thread.
\<close>

lemma stopped_logger_not_joinable:
  "m_flushThread (CSVLogger_ctor ts filename n) = None"
  "stop L W = Some (L', W') \<Longrightarrow> (\<not> m_running L \<longrightarrow> m_flushThread L = None) \<Longrightarrow>
     m_flushThread L' = None"
  "start L W = Inr (L', W') \<Longrightarrow> m_running L'"
  "m_flushThread (logEvent L evt) = m_flushThread L"
proof -
  show "m_flushThread (CSVLogger_ctor ts filename n) = None"
    by (simp add: CSVLogger_ctor_def)
  show "m_flushThread L' = None"
    if s: "stop L W = Some (L', W')" and i: "\<not> m_running L \<longrightarrow> m_flushThread L = None"
  proof (cases "m_running L")
    case True
    with s have "flushToDisk (L\<lparr>m_running := False, m_flushThread := None\<rparr>) W = (L', W')"
      by (simp add: stop_eq)
    then have "L' = L\<lparr>m_running := False, m_flushThread := None, m_eventQueue := []\<rparr>"
      using flushToDisk_logger [of "L\<lparr>m_running := False, m_flushThread := None\<rparr>" W] by simp
    then show ?thesis by simp
  next
    case False
    with s i show ?thesis by (simp add: stop_def)
  qed
  show "m_running L'" if "start L W = Inr (L', W')"
    using that by (rule start_result_running)
  show "m_flushThread (logEvent L evt) = m_flushThread L"
    by (simp add: logEvent_def)
qed

section \<open>Shutdown\<close>

text \<open>
  C1 (as the code has it). Take a running logger whose file can be opened for
  appending and takes the writes, and let any interleaving \<open>as\<close> of \<^verbatim>\<open>logEvent\<close> calls
  and steps of the flush thread go by. Then \<^verbatim>\<open>stop\<close> returns, and when it has returned
  the file holds the text it had at the beginning followed by the records of all events
  that were in the queue at the beginning or were logged since, in the order they were
  pushed; the queue is empty, the flag is cleared and the thread is joined.
\<close>

theorem stop_persists_every_event:
  assumes "m_running L" and "can_open W (m_filename L)" and "can_write W (m_filename L)"
  shows "\<exists>L' W'. stop (fst (run as (L, W))) (snd (run as (L, W))) = Some (L', W') \<and>
           file_text W' (m_filename L) =
             file_text W (m_filename L) @ csv_records (m_eventQueue L @ logged as) \<and>
           m_eventQueue L' = [] \<and> \<not> m_running L' \<and> m_flushThread L' = None"
proof -
  obtain L1 W1 where r: "run as (L, W) = (L1, W1)" by (cases "run as (L, W)")
  note i = run_invariant [OF assms(2) assms(3) r]
  let ?L2 = "L1\<lparr>m_running := False, m_flushThread := None\<rparr>"
  from i assms have run1: "m_running L1" by simp
  have s: "stop L1 W1 = Some (flushToDisk ?L2 W1)" using run1 by (rule stop_eq)
  obtain L' W' where f: "flushToDisk ?L2 W1 = (L', W')" by (cases "flushToDisk ?L2 W1")
  have L': "L' = ?L2\<lparr>m_eventQueue := []\<rparr>" using flushToDisk_logger [of ?L2 W1] f by simp
  have o: "can_open W1 (m_filename ?L2)" using i assms(2) by simp
  have w: "can_write W1 (m_filename ?L2)" using i assms(3) by simp
  have "file_text W' (m_filename ?L2) =
          file_text W1 (m_filename ?L2) @ csv_records (m_eventQueue ?L2)"
    using flushToDisk_file_text [OF o] w f by simp
  with i have "file_text W' (m_filename L) =
      file_text W (m_filename L) @ csv_records (m_eventQueue L @ logged as)"
    by simp
  with s f L' r show ?thesis by simp
qed

text \<open>The scenario: the key-down event is queued, a cursor sample is logged, the thread sleeps on.\<close>

theorem stop_persists_every_event_witness:
  "m_running running_logger \<and> can_open logging_disk (m_filename running_logger) \<and>
   can_write logging_disk (m_filename running_logger) \<and>
   (\<exists>L' W'. stop (fst (run [LogEvent cursor_sample, ThreadStep] (running_logger, logging_disk)))
                  (snd (run [LogEvent cursor_sample, ThreadStep] (running_logger, logging_disk)))
               = Some (L', W') \<and>
            file_text W' ''input_log.csv'' =
              ''timestamp_ms,event_type,x,y,key_code\<newline>100,KEY_DOWN,5,9,81\<newline>120,MOUSE_POS,-3,9,0\<newline>'' \<and>
            m_eventQueue L' = [] \<and> \<not> m_running L' \<and> m_flushThread L' = None)"
proof -
  have n: "m_filename running_logger = ''input_log.csv''"
    "m_eventQueue running_logger = [key_down_event]"
    by (simp_all add: running_logger_def default_logger_def CSVLogger_ctor_def)
  have h1: "m_running running_logger" by (simp add: running_logger_def)
  have h2: "can_open logging_disk (m_filename running_logger)" by (simp add: logging_disk_def)
  have h3: "can_write logging_disk (m_filename running_logger)" by (simp add: logging_disk_def)
  have w: "file_text logging_disk ''input_log.csv'' = header_line"
    by (simp add: logging_disk_def file_text_def)
  have l: "logged [LogEvent cursor_sample, ThreadStep] = [cursor_sample]" by simp
  note t = stop_persists_every_event [OF h1 h2 h3, of "[LogEvent cursor_sample, ThreadStep]"]
  from t have "\<exists>L' W'. stop (fst (run [LogEvent cursor_sample, ThreadStep] (running_logger, logging_disk)))
                  (snd (run [LogEvent cursor_sample, ThreadStep] (running_logger, logging_disk)))
               = Some (L', W') \<and>
            file_text W' ''input_log.csv'' =
              ''timestamp_ms,event_type,x,y,key_code\<newline>100,KEY_DOWN,5,9,81\<newline>120,MOUSE_POS,-3,9,0\<newline>'' \<and>
            m_eventQueue L' = [] \<and> \<not> m_running L' \<and> m_flushThread L' = None"
    unfolding n w l
    by (simp add: csv_records_def key_down_record cursor_sample_record header_line_def)
  with h1 h2 h3 show ?thesis by simp
qed

text \<open>
  Without the proviso the events are lost: the log is held by another program, one
  event is queued, and after \<^verbatim>\<open>stop\<close> the queue is empty and the file holds the header only.
\<close>

theorem stop_open_failure_counterexample:
  "m_running running_logger \<and>
   m_eventQueue running_logger = [key_down_event] \<and>
   stop running_logger locked_disk =
     Some (default_logger,
           locked_disk\<lparr>opens := [(''input_log.csv'', app)],
                       cerr := ''Failed to open CSV file for appending: input_log.csv\<newline>''\<rparr>) \<and>
   file_text (locked_disk\<lparr>opens := [(''input_log.csv'', app)],
                          cerr := ''Failed to open CSV file for appending: input_log.csv\<newline>''\<rparr>)
     ''input_log.csv'' = ''timestamp_ms,event_type,x,y,key_code\<newline>'' \<and>
   m_eventQueue default_logger = []"
proof -
  have r: "m_running running_logger" by (simp add: running_logger_def)
  have d: "running_logger\<lparr>m_running := False, m_flushThread := None\<rparr> =
           default_logger\<lparr>m_eventQueue := [key_down_event]\<rparr>"
    by (simp add: running_logger_def default_logger_def CSVLogger_ctor_def)
  have "stop running_logger locked_disk =
     Some (default_logger,
           locked_disk\<lparr>opens := [(''input_log.csv'', app)],
                       cerr := ''Failed to open CSV file for appending: input_log.csv\<newline>''\<rparr>)"
    unfolding stop_eq [OF r] d
    by (simp add: flushToDisk_dropped default_logger_def CSVLogger_ctor_def locked_disk_def)
  then show ?thesis
    by (simp add: running_logger_def default_logger_def CSVLogger_ctor_def locked_disk_def
        file_text_def header_line_def)
qed

text \<open>
  The other half of the proviso: on a full disk the log opens, the insertions are lost,
  no stream is tested, and \<^verbatim>\<open>stop\<close> returns with the queue empty, the file holding the
  header only and nothing written to \<^verbatim>\<open>std::cerr\<close>.
\<close>

lemma stop_on_full_disk:
  "stop running_logger full_disk =
     Some (default_logger,
           full_disk\<lparr>opens := [(''input_log.csv'', trunc), (''input_log.csv'', app)]\<rparr>)"
proof -
  have r: "m_running running_logger" by (simp add: running_logger_def)
  have d: "running_logger\<lparr>m_running := False, m_flushThread := None\<rparr> =
           default_logger\<lparr>m_eventQueue := [key_down_event]\<rparr>"
    by (simp add: running_logger_def default_logger_def CSVLogger_ctor_def)
  show ?thesis
    unfolding stop_eq [OF r] d
    by (simp add: flushToDisk_opened default_logger_def CSVLogger_ctor_def full_disk_def
        file_text_def)
qed

text \<open>
  C10 (as the code has it). The destructor of a running logger does what \<^verbatim>\<open>stop\<close> does.
  When the file can be opened for appending and takes the writes, it returns with the
  thread joined, the flag cleared, the queue empty and the records of the queued events
  appended to the file in order. The destructor of a stopped logger leaves the logger
  and the world unchanged: it neither flushes nor opens a file. (The destructors of the
  members run after this body; the one of \<^verbatim>\<open>m_flushThread\<close> finds a thread that is not
  joinable.)
\<close>

theorem destructor_stops_running_logger:
  "(m_running L \<longrightarrow> CSVLogger_dtor L W = stop L W) \<and>
   (m_running L \<and> can_open W (m_filename L) \<and> can_write W (m_filename L) \<longrightarrow>
      (\<exists>L' W'. CSVLogger_dtor L W = Some (L', W') \<and>
         \<not> m_running L' \<and> m_flushThread L' = None \<and> m_eventQueue L' = [] \<and>
         file_text W' (m_filename L) = file_text W (m_filename L) @ csv_records (m_eventQueue L))) \<and>
   (\<not> m_running L \<longrightarrow> CSVLogger_dtor L W = Some (L, W))"
proof -
  let ?L2 = "L\<lparr>m_running := False, m_flushThread := None\<rparr>"
  have "\<exists>L' W'. CSVLogger_dtor L W = Some (L', W') \<and>
         \<not> m_running L' \<and> m_flushThread L' = None \<and> m_eventQueue L' = [] \<and>
         file_text W' (m_filename L) = file_text W (m_filename L) @ csv_records (m_eventQueue L)"
    if r: "m_running L" and o: "can_open W (m_filename L)" and w: "can_write W (m_filename L)"
  proof -
    obtain L' W' where f: "flushToDisk ?L2 W = (L', W')" by (cases "flushToDisk ?L2 W")
    have L': "L' = ?L2\<lparr>m_eventQueue := []\<rparr>" using flushToDisk_logger [of ?L2 W] f by simp
    have "file_text W' (m_filename ?L2) =
        file_text W (m_filename ?L2) @ csv_records (m_eventQueue ?L2)"
      using flushToDisk_file_text [of W ?L2] o w f by simp
    with r f L' show ?thesis by (simp add: CSVLogger_dtor_def stop_eq)
  qed
  then show ?thesis by (simp add: CSVLogger_dtor_def)
qed

theorem destructor_stops_running_logger_witness:
  "m_running busy_logger \<and> can_open logging_disk (m_filename busy_logger) \<and>
   can_write logging_disk (m_filename busy_logger) \<and>
   CSVLogger_dtor busy_logger logging_disk = stop busy_logger logging_disk \<and>
   (\<exists>L' W'. CSVLogger_dtor busy_logger logging_disk = Some (L', W') \<and>
      \<not> m_running L' \<and> m_flushThread L' = None \<and> m_eventQueue L' = [] \<and>
      file_text W' ''input_log.csv'' =
        ''timestamp_ms,event_type,x,y,key_code\<newline>100,KEY_DOWN,5,9,81\<newline>120,MOUSE_POS,-3,9,0\<newline>'') \<and>
   \<not> m_running default_logger \<and>
   CSVLogger_dtor default_logger logging_disk = Some (default_logger, logging_disk)"
proof -
  have n: "m_filename busy_logger = ''input_log.csv''"
    "m_eventQueue busy_logger = [key_down_event, cursor_sample]"
    and h1: "m_running busy_logger" and h3: "\<not> m_running default_logger"
    by (simp_all add: busy_logger_def default_logger_def CSVLogger_ctor_def)
  have h2: "can_open logging_disk (m_filename busy_logger)"
    and h4: "can_write logging_disk (m_filename busy_logger)"
    by (simp_all add: logging_disk_def)
  have w: "file_text logging_disk ''input_log.csv'' = ''timestamp_ms,event_type,x,y,key_code\<newline>''"
    by (simp add: logging_disk_def file_text_def header_line_def)
  note t = destructor_stops_running_logger [of busy_logger logging_disk]
  note a = t [THEN conjunct1, rule_format, OF h1]
  note b = t [THEN conjunct2, THEN conjunct1, rule_format, OF conjI [OF h1 conjI [OF h2 h4]]]
  note c = destructor_stops_running_logger [of default_logger logging_disk, THEN conjunct2,
      THEN conjunct2, rule_format, OF h3]
  from b have "\<exists>L' W'. CSVLogger_dtor busy_logger logging_disk = Some (L', W') \<and>
      \<not> m_running L' \<and> m_flushThread L' = None \<and> m_eventQueue L' = [] \<and>
      file_text W' ''input_log.csv'' =
        ''timestamp_ms,event_type,x,y,key_code\<newline>100,KEY_DOWN,5,9,81\<newline>120,MOUSE_POS,-3,9,0\<newline>''"
    unfolding n w by (simp add: csv_records_def key_down_record cursor_sample_record)
  with a c h1 h2 h3 h4 show ?thesis by simp
qed

text \<open>
  Without the proviso the buffered events are lost: two events are queued, the log
  cannot be opened, and the destructor returns with the queue empty and the file as it was.
\<close>

theorem destructor_open_failure_counterexample:
  "m_running busy_logger \<and>
   m_eventQueue busy_logger = [key_down_event, cursor_sample] \<and>
   CSVLogger_dtor busy_logger locked_disk =
     Some (default_logger,
           locked_disk\<lparr>opens := [(''input_log.csv'', app)],
                       cerr := ''Failed to open CSV file for appending: input_log.csv\<newline>''\<rparr>) \<and>
   file_text (locked_disk\<lparr>opens := [(''input_log.csv'', app)],
                          cerr := ''Failed to open CSV file for appending: input_log.csv\<newline>''\<rparr>)
     ''input_log.csv'' = ''timestamp_ms,event_type,x,y,key_code\<newline>'' \<and>
   m_eventQueue default_logger = []"
proof -
  have r: "m_running busy_logger" by (simp add: busy_logger_def)
  have d: "busy_logger\<lparr>m_running := False, m_flushThread := None\<rparr> =
           default_logger\<lparr>m_eventQueue := [key_down_event, cursor_sample]\<rparr>"
    by (simp add: busy_logger_def default_logger_def CSVLogger_ctor_def)
  have "stop busy_logger locked_disk =
     Some (default_logger,
           locked_disk\<lparr>opens := [(''input_log.csv'', app)],
                       cerr := ''Failed to open CSV file for appending: input_log.csv\<newline>''\<rparr>)"
    unfolding stop_eq [OF r] d
    by (simp add: flushToDisk_dropped default_logger_def CSVLogger_ctor_def locked_disk_def)
  with r show ?thesis
    by (simp add: CSVLogger_dtor_def busy_logger_def default_logger_def CSVLogger_ctor_def
        locked_disk_def file_text_def header_line_def)
qed

section \<open>Start-up\<close>

text \<open>
  C2 (as the code has it). \<^verbatim>\<open>start\<close> on a stopped logger whose file cannot be opened
  returns normally, with the running flag set and the flush thread launched; the open
  was attempted once and no file has changed. No error reaches the caller.
\<close>

theorem start_ignores_open_failure:
  assumes "\<not> m_running L" and "m_flushThread L = None" and "\<not> can_open W (m_filename L)"
  shows "start L W =
           Inr (L\<lparr>m_running := True, m_flushThread := Some AtWhile\<rparr>,
                W\<lparr>opens := opens W @ [(m_filename L, trunc)]\<rparr>)"
  using assms by (simp add: start_stopped)

theorem start_ignores_open_failure_witness:
  "\<not> m_running default_logger \<and> m_flushThread default_logger = None \<and>
   \<not> can_open locked_disk (m_filename default_logger) \<and>
   start default_logger locked_disk =
     Inr (default_logger\<lparr>m_running := True, m_flushThread := Some AtWhile\<rparr>,
          locked_disk\<lparr>opens := [(''input_log.csv'', trunc)]\<rparr>)"
proof -
  have h1: "\<not> m_running default_logger" and h2: "m_flushThread default_logger = None"
    and n: "m_filename default_logger = ''input_log.csv''"
    by (simp_all add: default_logger_def CSVLogger_ctor_def)
  have h3: "\<not> can_open locked_disk (m_filename default_logger)" by (simp add: locked_disk_def)
  have o: "opens locked_disk = []" by (simp add: locked_disk_def)
  from h1 h2 h3 start_ignores_open_failure [OF h1 h2 h3] show ?thesis by (simp add: n o)
qed

text \<open>
  On a disk where the log cannot be created, \<^verbatim>\<open>start\<close> of the stopped default logger
  returns a running logger: it does not fail and the engine does not remain stopped.
\<close>

theorem start_open_failure_counterexample:
  "\<not> m_running default_logger \<and>
   \<not> can_open readonly_disk (m_filename default_logger) \<and>
   start default_logger readonly_disk =
     Inr (default_logger\<lparr>m_running := True, m_flushThread := Some AtWhile\<rparr>,
          readonly_disk\<lparr>opens := [(''input_log.csv'', trunc)]\<rparr>) \<and>
   m_running (default_logger\<lparr>m_running := True, m_flushThread := Some AtWhile\<rparr>)"
  by (simp add: start_stopped default_logger_def CSVLogger_ctor_def readonly_disk_def)

text \<open>
  C6. When the file can be opened and takes the writes: \<^verbatim>\<open>start\<close> on a stopped logger
  leaves in the file exactly the header line \<^verbatim>\<open>timestamp_ms,event_type,x,y,key_code\<close>,
  whatever the file held before; and a drain-and-append cycle appends to the file, for
  each queued event in order, one record of the specification's format: the five fields
  timestamp, tag, x, y and key code, separated by commas and ended by a newline. (When
  the file opens but takes no write, \<^verbatim>\<open>start\<close> leaves it empty and the cycle leaves it
  as it was.) The events that the mouse hook and the cursor poll build carry the key
  code 0, written as \<^verbatim>\<open>0\<close>.
\<close>

theorem header_and_record_format:
  assumes "can_open W (m_filename L)"
  shows "(\<not> m_running L \<and> m_flushThread L = None \<longrightarrow>
            start L W =
              Inr (L\<lparr>m_running := True, m_flushThread := Some AtWhile\<rparr>,
                   W\<lparr>opens := opens W @ [(m_filename L, trunc)],
                     files := (files W)(m_filename L \<mapsto>
                       (if can_write W (m_filename L)
                        then ''timestamp_ms,event_type,x,y,key_code\<newline>'' else []))\<rparr>)) \<and>
         file_text (snd (flushToDisk L W)) (m_filename L) =
           file_text W (m_filename L) @
             (if can_write W (m_filename L) then csv_records (m_eventQueue L) else []) \<and>
         length (csv_fields evt) = 5 \<and>
         csv_fields (mouse_event tag time pt) =
           [dec_nat (unat time), tag, dec_int (sint (pt_x pt)), dec_int (sint (pt_y pt)), ''0''] \<and>
         csv_fields (cursor_event time pt) =
           [dec_nat (unat time), ''MOUSE_POS'', dec_int (sint (pt_x pt)), dec_int (sint (pt_y pt)),
            ''0'']"
  using assms
  by (simp add: start_stopped header_line_def flushToDisk_file_text csv_fields_def
      mouse_event_def cursor_event_def dec_nat_0)

theorem header_and_record_format_witness:
  "can_open empty_disk (m_filename default_logger) \<and>
   can_write empty_disk (m_filename default_logger) \<and>
   \<not> m_running default_logger \<and> m_flushThread default_logger = None \<and>
   start default_logger empty_disk =
     Inr (default_logger\<lparr>m_running := True, m_flushThread := Some AtWhile\<rparr>,
          empty_disk\<lparr>opens := [(''input_log.csv'', trunc)],
                     files := [''input_log.csv'' \<mapsto> ''timestamp_ms,event_type,x,y,key_code\<newline>'']\<rparr>) \<and>
   can_open logging_disk (m_filename running_logger) \<and>
   can_write logging_disk (m_filename running_logger) \<and>
   file_text (snd (flushToDisk running_logger logging_disk)) ''input_log.csv'' =
     ''timestamp_ms,event_type,x,y,key_code\<newline>100,KEY_DOWN,5,9,81\<newline>''"
proof -
  have n: "m_filename default_logger = ''input_log.csv''"
    "m_filename running_logger = ''input_log.csv''"
    "m_eventQueue running_logger = [key_down_event]"
    and h1: "\<not> m_running default_logger" and h2: "m_flushThread default_logger = None"
    by (simp_all add: running_logger_def default_logger_def CSVLogger_ctor_def)
  have o1: "can_open empty_disk (m_filename default_logger)"
    and w1: "can_write empty_disk (m_filename default_logger)"
    by (simp_all add: empty_disk_def)
  have o2: "can_open logging_disk (m_filename running_logger)"
    and w2: "can_write logging_disk (m_filename running_logger)"
    by (simp_all add: logging_disk_def)
  have w: "opens empty_disk = []" "files empty_disk = Map.empty"
    "file_text logging_disk ''input_log.csv'' = ''timestamp_ms,event_type,x,y,key_code\<newline>''"
    by (simp_all add: empty_disk_def logging_disk_def file_text_def header_line_def)
  note a = header_and_record_format [OF o1, THEN conjunct1, rule_format, OF conjI, OF h1 h2]
  note b = header_and_record_format [OF o2, THEN conjunct2, THEN conjunct1]
  from a b o1 o2 w1 w2 h1 h2 show ?thesis
    by (simp add: n w csv_records_def key_down_record)
qed

section \<open>The flush thread and the flag\<close>

text \<open>
  C3 (as the code has it). The flush thread reads the flag at the head of its loop and
  once more after \<^verbatim>\<open>sleep_for\<close> has returned, nowhere else. A thread that is asleep with
  \<open>k\<close> seconds to go when the flag is cleared stays asleep for all of them: after \<open>j \<le> k\<close>
  steps it still sleeps, with \<open>k - j\<close> seconds to go. It returns two steps after the
  sleep has ended, and on the way neither the logger nor the world changes: no
  drain-and-append runs. A thread at either test of the flag returns at once, so no new
  iteration begins. A running thread that enters the sleep sleeps for the whole interval.
\<close>

theorem flag_polled_after_full_sleep:
  assumes "\<not> m_running L" and "m_flushThread L = Some (Sleeping k)"
  shows "(\<forall>j\<le>k. run (replicate j ThreadStep) (L, W) =
                   (L\<lparr>m_flushThread := Some (Sleeping (k - j))\<rparr>, W)) \<and>
         run (replicate (k + 2) ThreadStep) (L, W) = (L\<lparr>m_flushThread := Some Returned\<rparr>, W) \<and>
         flushThreadFunc AtWhile L W = (Returned, L, W) \<and>
         flushThreadFunc AtBreakCheck L W = (Returned, L, W) \<and>
         flushThreadFunc AtWhile (L\<lparr>m_running := True\<rparr>) W =
           (Sleeping (nat (m_flushIntervalSec L)), L\<lparr>m_running := True\<rparr>, W)"
proof (intro conjI allI impI)
  fix j
  assume "j \<le> k"
  with assms(2) show "run (replicate j ThreadStep) (L, W) =
      (L\<lparr>m_flushThread := Some (Sleeping (k - j))\<rparr>, W)"
    by (rule sleeping_steps)
next
  from assms show "run (replicate (k + 2) ThreadStep) (L, W) =
      (L\<lparr>m_flushThread := Some Returned\<rparr>, W)"
    by (rule wake_up_steps)
qed (simp_all add: assms(1))

theorem flag_polled_after_full_sleep_witness:
  "\<not> m_running stopping_logger \<and> m_flushThread stopping_logger = Some (Sleeping 30) \<and>
   run (replicate 10 ThreadStep) (stopping_logger, logging_disk) =
     (stopping_logger\<lparr>m_flushThread := Some (Sleeping 20)\<rparr>, logging_disk) \<and>
   run (replicate 32 ThreadStep) (stopping_logger, logging_disk) =
     (stopping_logger\<lparr>m_flushThread := Some Returned\<rparr>, logging_disk) \<and>
   flushThreadFunc AtWhile (stopping_logger\<lparr>m_running := True\<rparr>) logging_disk =
     (Sleeping 60, stopping_logger\<lparr>m_running := True\<rparr>, logging_disk)"
proof -
  have h1: "\<not> m_running stopping_logger" and h2: "m_flushThread stopping_logger = Some (Sleeping 30)"
    and i: "m_flushIntervalSec stopping_logger = 60"
    by (simp_all add: stopping_logger_def default_logger_def CSVLogger_ctor_def)
  note t = flag_polled_after_full_sleep [OF h1 h2, of logging_disk]
  from t have "run (replicate 10 ThreadStep) (stopping_logger, logging_disk) =
     (stopping_logger\<lparr>m_flushThread := Some (Sleeping (30 - 10))\<rparr>, logging_disk)"
    by (elim conjE allE [of _ 10]) simp
  moreover from t have "run (replicate (30 + 2) ThreadStep) (stopping_logger, logging_disk) =
     (stopping_logger\<lparr>m_flushThread := Some Returned\<rparr>, logging_disk)"
    by (elim conjE)
  moreover from t have "flushThreadFunc AtWhile (stopping_logger\<lparr>m_running := True\<rparr>) logging_disk =
     (Sleeping (nat 60), stopping_logger\<lparr>m_running := True\<rparr>, logging_disk)"
    unfolding i by (elim conjE)
  ultimately show ?thesis using h1 h2 by simp
qed

text \<open>
  The flag is cleared while the thread has 30 of its 60 seconds left to sleep: 30
  seconds later the thread is still inside \<^verbatim>\<open>sleep_for\<close> and has not returned.
\<close>

theorem sleep_not_interrupted_counterexample:
  "\<not> m_running stopping_logger \<and> m_flushThread stopping_logger = Some (Sleeping 30) \<and>
   run (replicate 30 ThreadStep) (stopping_logger, logging_disk) =
     (stopping_logger\<lparr>m_flushThread := Some (Sleeping 0)\<rparr>, logging_disk)"
proof -
  have h2: "m_flushThread stopping_logger = Some (Sleeping 30)"
    by (simp add: stopping_logger_def)
  have "run (replicate 30 ThreadStep) (stopping_logger, logging_disk) =
     (stopping_logger\<lparr>m_flushThread := Some (Sleeping (30 - 30))\<rparr>, logging_disk)"
    by (rule sleeping_steps [OF h2]) simp
  then show ?thesis
    by (simp add: stopping_logger_def default_logger_def CSVLogger_ctor_def)
qed

end
